theory Spec2Isabelle
  imports Complex_Main "HOL-Library.Product_Lexorder" "HOL-Library.AList" "HOL-Library.Multiset"
begin

section \<open>Replication manager: merging replicated records\<close>

text \<open>
  A record on disk is a JSON object. Each key the merge code looks at is a field that is
  either absent (\<open>None\<close>) or present with the type the servers write: wall-clock
  timestamps are numbers, Lamport clocks are integers, every other field is a string.
\<close>

record login =
  user :: "string option"
  timestamp :: "real option"
  clock :: "int option"

record channel_rec =
  channel :: "string option"
  ch_timestamp :: "real option"
  ch_clock :: "int option"

record message =
  msg_type :: "string option"
  msg_timestamp :: "real option"
  msg_clock :: "int option"
  msg_user :: "string option"
  msg_src :: "string option"
  msg_channel :: "string option"
  msg_dst :: "string option"
  msg_text :: "string option"

text \<open>
  A file of the data directory as \<open>DataStore.load\<close> sees it: missing
  (\<open>filepath.exists()\<close> is false), present but raising \<open>JSONDecodeError\<close> or
  \<open>IOError\<close> when opened and parsed, or holding a value. Writes succeed: other failures
  of the file system are outside the model.
\<close>

datatype 'a disk_file = NotExists | Unparsable | Content 'a

text \<open>\<open>datastore.load(name, default=[])\<close> on a file that holds a list of records.\<close>

fun load_list :: "'a list disk_file \<Rightarrow> 'a list" where
  "load_list NotExists = []"
| "load_list Unparsable = []"
| "load_list (Content xs) = xs"

record datastore =
  logins_json :: "login list disk_file"
  channels_json :: "channel_rec list disk_file"
  messages_json :: "message list disk_file"

text \<open>
  The loop of \<open>_merge_logins\<close>: \<open>existing\<close> grows by every incoming record that has
  a \<open>user\<close> key not seen so far, \<open>existing_users\<close> grows with it.
\<close>

fun merge_logins_loop :: "login list \<Rightarrow> string set \<Rightarrow> login list \<Rightarrow> login list" where
  "merge_logins_loop existing existing_users [] = existing"
| "merge_logins_loop existing existing_users (l # new_logins) =
     (case user l of
        Some u \<Rightarrow>
          (if u \<notin> existing_users
           then merge_logins_loop (existing @ [l]) (insert u existing_users) new_logins
           else merge_logins_loop existing existing_users new_logins)
      | None \<Rightarrow> merge_logins_loop existing existing_users new_logins)"

text \<open>\<open>{login['user'] for login in existing if 'user' in login}\<close>\<close>

definition users_of :: "login list \<Rightarrow> string set" where
  "users_of existing = set (List.map_filter user existing)"

definition merge_logins :: "datastore \<Rightarrow> login list \<Rightarrow> datastore" where
  "merge_logins ds new_logins =
     (let existing = load_list (logins_json ds);
          existing_users = users_of existing
      in ds\<lparr>logins_json := Content (merge_logins_loop existing existing_users new_logins)\<rparr>)"

fun merge_channels_loop ::
  "channel_rec list \<Rightarrow> string set \<Rightarrow> channel_rec list \<Rightarrow> channel_rec list" where
  "merge_channels_loop existing existing_channels [] = existing"
| "merge_channels_loop existing existing_channels (c # new_channels) =
     (case channel c of
        Some n \<Rightarrow>
          (if n \<notin> existing_channels
           then merge_channels_loop (existing @ [c]) (insert n existing_channels) new_channels
           else merge_channels_loop existing existing_channels new_channels)
      | None \<Rightarrow> merge_channels_loop existing existing_channels new_channels)"

definition channels_of :: "channel_rec list \<Rightarrow> string set" where
  "channels_of existing = set (List.map_filter channel existing)"

definition merge_channels :: "datastore \<Rightarrow> channel_rec list \<Rightarrow> datastore" where
  "merge_channels ds new_channels =
     (let existing = load_list (channels_json ds);
          existing_channels = channels_of existing
      in ds\<lparr>channels_json := Content (merge_channels_loop existing existing_channels new_channels)\<rparr>)"

type_synonym message_id = "real \<times> int \<times> string \<times> string \<times> string \<times> string"

text \<open>\<open>d.get(k, default)\<close> on an optional field.\<close>

definition get_or :: "'a option \<Rightarrow> 'a \<Rightarrow> 'a" where
  "get_or v dflt = (case v of Some x \<Rightarrow> x | None \<Rightarrow> dflt)"

definition get_message_id :: "message \<Rightarrow> message_id" where
  "get_message_id msg =
     (let mtype = get_or (msg_type msg) '''';
          ts = get_or (msg_timestamp msg) 0;
          clk = get_or (msg_clock msg) 0;
          usr = get_or (msg_user msg) (get_or (msg_src msg) '''');
          target = (if mtype = ''publish'' then get_or (msg_channel msg) ''''
                    else get_or (msg_dst msg) '''');
          message_text = get_or (msg_text msg) ''''
      in (ts, clk, mtype, usr, target, message_text))"

fun merge_messages_loop ::
  "message list \<Rightarrow> message_id set \<Rightarrow> message list \<Rightarrow> message list" where
  "merge_messages_loop existing existing_ids [] = existing"
| "merge_messages_loop existing existing_ids (m # new_messages) =
     (if get_message_id m \<notin> existing_ids
      then merge_messages_loop (existing @ [m]) (insert (get_message_id m) existing_ids) new_messages
      else merge_messages_loop existing existing_ids new_messages)"

text \<open>The key of \<open>existing.sort\<close>: the pair \<open>(timestamp, clock)\<close>, compared lexicographically.\<close>

definition sort_key_of :: "message \<Rightarrow> real \<times> int" where
  "sort_key_of m = (get_or (msg_timestamp m) 0, get_or (msg_clock m) 0)"

text \<open>
  \<open>list.sort\<close> is a stable sort; \<open>sort_key\<close> is the stable insertion sort, and a stable
  sort is determined by its input and key.
\<close>

definition merge_messages :: "datastore \<Rightarrow> message list \<Rightarrow> datastore" where
  "merge_messages ds new_messages =
     (let existing = load_list (messages_json ds);
          existing_ids = get_message_id ` set existing;
          merged = merge_messages_loop existing existing_ids new_messages
      in ds\<lparr>messages_json := Content (sort_key sort_key_of merged)\<rparr>)"


text \<open>The replication handler dispatches on the payload type.\<close>

datatype payload =
  Logins "login list" | Channels "channel_rec list" | Messages "message list"

fun merge :: "datastore \<Rightarrow> payload \<Rightarrow> datastore" where
  "merge ds (Logins new_logins) = merge_logins ds new_logins"
| "merge ds (Channels new_channels) = merge_channels ds new_channels"
| "merge ds (Messages new_messages) = merge_messages ds new_messages"

section \<open>Python values, the persistence store and the message codec\<close>

text \<open>
  A Python dictionary keeps its keys in insertion order: an association list with
  \<open>AList.update\<close> (replace in place, or append a new key at the end).
\<close>

datatype pyval =
  PyNone | PyBool bool | PyInt int | PyFloat real | PyStr string
  | PyList "pyval list" | PyDict "(string \<times> pyval) list"

type_synonym dict = "(string \<times> pyval) list"

text \<open>
  \<open>DataStore.load\<close>: the data directory maps a file name to what is on disk under it.
\<close>

definition load :: "(string \<Rightarrow> pyval disk_file) \<Rightarrow> string \<Rightarrow> pyval \<Rightarrow> pyval" where
  "load data_dir filename dflt =
     (case data_dir filename of
        NotExists \<Rightarrow> (if dflt \<noteq> PyNone then dflt else PyList [])
      | Unparsable \<Rightarrow> (if dflt \<noteq> PyNone then dflt else PyList [])
      | Content v \<Rightarrow> v)"

text \<open>\<open>DataStore.append\<close> on a file that holds a list of records: load, append, save.\<close>

definition append_item :: "'a list disk_file \<Rightarrow> 'a \<Rightarrow> 'a list disk_file" where
  "append_item f item = Content (load_list f @ [item])"

subsection \<open>Lamport clock\<close>

record logical_clock =
  counter :: int

text \<open>\<open>increment\<close> and \<open>update\<close> return the new counter value with the updated clock.\<close>

definition increment :: "logical_clock \<Rightarrow> int \<times> logical_clock" where
  "increment c = (counter c + 1, c\<lparr>counter := counter c + 1\<rparr>)"

definition update_clock :: "logical_clock \<Rightarrow> int \<Rightarrow> int \<times> logical_clock" where
  "update_clock c received_time =
     (max (counter c) received_time + 1, c\<lparr>counter := max (counter c) received_time + 1\<rparr>)"

definition get_time :: "logical_clock \<Rightarrow> int" where
  "get_time c = counter c"

subsection \<open>Messages\<close>

text \<open>
  The bytes \<open>msgpack.packb\<close> produces are represented by the envelope they encode:
  the service name and a copy of the data dictionary as it is when \<open>packb\<close> runs.
\<close>

record envelope =
  service :: string
  data :: dict

text \<open>
  Dictionaries are objects on a heap, passed by reference. \<open>create_message\<close> receives
  the reference \<open>data\<close> of its caller, writes to that object, and packs the message
  that refers to it. \<open>now\<close> is the value \<open>time.time()\<close> returns.
\<close>

type_synonym ref = nat
type_synonym heap = "ref \<Rightarrow> dict"

definition packb :: "heap \<Rightarrow> string \<times> ref \<Rightarrow> envelope" where
  "packb h msg = \<lparr>service = fst msg, data = h (snd msg)\<rparr>"

definition create_message ::
  "string \<Rightarrow> ref \<Rightarrow> logical_clock \<Rightarrow> real \<Rightarrow> heap \<Rightarrow> envelope \<times> logical_clock \<times> heap" where
  "create_message svc data_ref clk now h =
     (let (clock_value, clk') = increment clk;
          h1 = h(data_ref := AList.update ''timestamp'' (PyFloat now) (h data_ref));
          h2 = h1(data_ref := AList.update ''clock'' (PyInt clock_value) (h1 data_ref));
          msg = (svc, data_ref)
      in (packb h2 msg, clk', h2))"

text \<open>\<open>d.update(other)\<close>\<close>

definition dict_update :: "dict \<Rightarrow> dict \<Rightarrow> dict" where
  "dict_update d other = foldl (\<lambda>acc kv. AList.update (fst kv) (snd kv) acc) d other"

text \<open>
  \<open>create_response\<close>; the optional \<open>description\<close> is added when it is given and
  not empty.
\<close>

definition create_response ::
  "string \<Rightarrow> string \<Rightarrow> dict \<Rightarrow> logical_clock \<Rightarrow> string option \<Rightarrow> real
     \<Rightarrow> envelope \<times> logical_clock" where
  "create_response svc status resp_data clk description now =
     (let (clock_value, clk') = increment clk;
          response_data = [(''status'', PyStr status), (''timestamp'', PyFloat now),
                           (''clock'', PyInt clock_value)];
          response_data = (case description of
                             None \<Rightarrow> response_data
                           | Some d \<Rightarrow> if d \<noteq> '''' then AList.update ''description'' (PyStr d) response_data
                                       else response_data);
          response_data = dict_update response_data resp_data
      in (\<lparr>service = svc, data = response_data\<rparr>, clk'))"

section \<open>Message server: login\<close>

record message_server =
  users :: "string set"
  ms_clock :: logical_clock
  ms_datastore :: datastore

text \<open>UTF-8 bytes of the two error descriptions of \<open>handle_login\<close>.\<close>

definition desc_user_missing :: string where
  "desc_user_missing = ''Nome de usu'' @ [CHR 0xC3, CHR 0xA1] @ ''rio n'' @ [CHR 0xC3, CHR 0xA3]
     @ ''o fornecido''"

definition desc_user_registered :: string where
  "desc_user_registered = ''Usu'' @ [CHR 0xC3, CHR 0xA1] @ ''rio j'' @ [CHR 0xC3, CHR 0xA1]
     @ '' cadastrado''"

text \<open>
  \<open>handle_login\<close>: \<open>data_user\<close> is the \<open>user\<close> field of the request, \<open>None\<close> when
  the key is absent. Returns the response and the server afterwards.
\<close>

definition handle_login ::
  "message_server \<Rightarrow> string option \<Rightarrow> real \<Rightarrow> envelope \<times> message_server" where
  "handle_login ms data_user now =
     (let usr = get_or data_user ''''
      in if usr = '''' then
           (let (resp, clk') = create_response ''login'' ''erro'' [] (ms_clock ms)
                                 (Some desc_user_missing) now
            in (resp, ms\<lparr>ms_clock := clk'\<rparr>))
         else if usr \<in> users ms then
           (let (resp, clk') = create_response ''login'' ''erro'' [] (ms_clock ms)
                                 (Some desc_user_registered) now
            in (resp, ms\<lparr>ms_clock := clk'\<rparr>))
         else
           (let login_entry = \<lparr>user = Some usr, timestamp = Some now,
                                clock = Some (get_time (ms_clock ms))\<rparr>;
                ds = ms_datastore ms;
                ds' = ds\<lparr>logins_json := append_item (logins_json ds) login_entry\<rparr>;
                (resp, clk') = create_response ''login'' ''sucesso'' [] (ms_clock ms) None now
            in (resp, ms\<lparr>users := insert usr (users ms), ms_clock := clk', ms_datastore := ds'\<rparr>)))"

section \<open>Registry service\<close>

record server_info =
  rank :: int
  last_heartbeat :: real

text \<open>
  \<open>self.servers\<close> is a dictionary from server name to descriptor, in insertion order.
  \<open>reference_json\<close> is the roster file on disk, as \<open>_save_state\<close> wrote it last.
\<close>

record saved_state =
  saved_servers :: "(string \<times> server_info) list"
  saved_next_rank :: int
  saved_timestamp :: real

record reference_server =
  servers :: "(string \<times> server_info) list"
  next_rank :: int
  rs_clock :: logical_clock
  reference_json :: "saved_state disk_file"

definition HEARTBEAT_TIMEOUT :: real where
  "HEARTBEAT_TIMEOUT = 30"

text \<open>A registry with no saved state: \<open>__init__\<close> when \<open>reference.json\<close> is missing.\<close>

definition init_reference_server :: reference_server where
  "init_reference_server =
     \<lparr>servers = [], next_rank = 1, rs_clock = \<lparr>counter = 0\<rparr>, reference_json = NotExists\<rparr>"

definition save_state :: "reference_server \<Rightarrow> real \<Rightarrow> reference_server" where
  "save_state rs now =
     rs\<lparr>reference_json := Content \<lparr>saved_servers = servers rs, saved_next_rank = next_rank rs,
                                       saved_timestamp = now\<rparr>\<rparr>"

text \<open>
  \<open>_cleanup_inactive_servers\<close>: collect the names whose heartbeat is older than the
  timeout, delete each from the dictionary, save when anything was deleted.
\<close>

definition cleanup_inactive_servers :: "reference_server \<Rightarrow> real \<Rightarrow> reference_server" where
  "cleanup_inactive_servers rs current_time =
     (let inactive = map fst (filter (\<lambda>(name, info).
                        current_time - last_heartbeat info > HEARTBEAT_TIMEOUT) (servers rs));
          rs' = rs\<lparr>servers := fold AList.delete inactive (servers rs)\<rparr>
      in if inactive \<noteq> [] then save_state rs' current_time else rs')"

definition desc_server_missing :: string where
  "desc_server_missing = ''Nome do servidor n'' @ [CHR 0xC3, CHR 0xA3] @ ''o fornecido''"

text \<open>
  The handlers take the \<open>user\<close> field of the request (\<open>None\<close> when absent) and the
  wall-clock time read during the call.
\<close>

definition handle_rank_request ::
  "reference_server \<Rightarrow> string option \<Rightarrow> real \<Rightarrow> envelope \<times> reference_server" where
  "handle_rank_request rs data_user now =
     (let usr = get_or data_user ''''
      in if usr = '''' then
           (let (resp, clk') = create_response ''rank'' ''erro'' [] (rs_clock rs)
                                 (Some desc_server_missing) now
            in (resp, rs\<lparr>rs_clock := clk'\<rparr>))
         else
           (let (rnk, rs1) =
                  (case map_of (servers rs) usr of
                     Some info \<Rightarrow>
                       (rank info,
                        rs\<lparr>servers := AList.update usr (info\<lparr>last_heartbeat := now\<rparr>) (servers rs)\<rparr>)
                   | None \<Rightarrow>
                       (next_rank rs,
                        rs\<lparr>servers := AList.update usr
                                        \<lparr>rank = next_rank rs, last_heartbeat = now\<rparr> (servers rs),
                           next_rank := next_rank rs + 1\<rparr>));
                rs2 = save_state rs1 now;
                (resp, clk') = create_response ''rank'' ''sucesso'' [(''rank'', PyInt rnk)]
                                 (rs_clock rs2) None now
            in (resp, rs2\<lparr>rs_clock := clk'\<rparr>)))"

definition handle_list_request ::
  "reference_server \<Rightarrow> real \<Rightarrow> envelope \<times> reference_server" where
  "handle_list_request rs now =
     (let server_list = map (\<lambda>(name, info). PyDict [(''name'', PyStr name), (''rank'', PyInt (rank info))])
                          (servers rs);
          (resp, clk') = create_response ''list'' ''sucesso'' [(''list'', PyList server_list)]
                           (rs_clock rs) None now
      in (resp, rs\<lparr>rs_clock := clk'\<rparr>))"

definition handle_heartbeat ::
  "reference_server \<Rightarrow> string option \<Rightarrow> real \<Rightarrow> envelope \<times> reference_server" where
  "handle_heartbeat rs data_user now =
     (let usr = get_or data_user ''''
      in if usr = '''' then
           (let (resp, clk') = create_response ''heartbeat'' ''erro'' [] (rs_clock rs)
                                 (Some desc_server_missing) now
            in (resp, rs\<lparr>rs_clock := clk'\<rparr>))
         else
           (let rs1 =
                  (case map_of (servers rs) usr of
                     Some info \<Rightarrow>
                       rs\<lparr>servers := AList.update usr (info\<lparr>last_heartbeat := now\<rparr>) (servers rs)\<rparr>
                   | None \<Rightarrow>
                       rs\<lparr>servers := AList.update usr
                                       \<lparr>rank = next_rank rs, last_heartbeat = now\<rparr> (servers rs),
                          next_rank := next_rank rs + 1\<rparr>);
                (resp, clk') = create_response ''heartbeat'' ''sucesso'' [] (rs_clock rs1) None now
            in (resp, rs1\<lparr>rs_clock := clk'\<rparr>)))"

text \<open>
  One turn of the request loop of \<open>run\<close>: a parsed request carries the service name, the
  \<open>user\<close> and \<open>clock\<close> fields of its data, and arrives at time \<open>now\<close>.
\<close>

record request =
  req_service :: string
  req_user :: "string option"
  req_clock :: "int option"

definition process_request ::
  "reference_server \<Rightarrow> request \<Rightarrow> real \<Rightarrow> envelope \<times> reference_server" where
  "process_request rs req now =
     (let received_clock = get_or (req_clock req) 0;
          rs0 = rs\<lparr>rs_clock := snd (update_clock (rs_clock rs) received_clock)\<rparr>
      in if req_service req = ''rank'' then handle_rank_request rs0 (req_user req) now
         else if req_service req = ''list'' then handle_list_request rs0 now
         else if req_service req = ''heartbeat'' then handle_heartbeat rs0 (req_user req) now
         else
           (let (resp, clk') = create_response (req_service req) ''erro'' [] (rs_clock rs0)
                                 (Some (''Servi'' @ [CHR 0xC3, CHR 0xA7] @ ''o desconhecido: ''
                                        @ req_service req)) now
            in (resp, rs0\<lparr>rs_clock := clk'\<rparr>)))"

text \<open>
  What happens to a registry: a request is processed, or the periodic sweep runs. Both
  happen under the one lock, so an execution is a sequence of such events.
\<close>

datatype event = Request request real | Cleanup real

fun step :: "reference_server \<Rightarrow> event \<Rightarrow> reference_server" where
  "step rs (Request req now) = snd (process_request rs req now)"
| "step rs (Cleanup now) = cleanup_inactive_servers rs now"

text \<open>Reading a response: the names of a \<open>list\<close> response, the rank of a \<open>rank\<close> response.\<close>

fun entry_name :: "pyval \<Rightarrow> string option" where
  "entry_name (PyDict d) = (case map_of d ''name'' of Some (PyStr n) \<Rightarrow> Some n | _ \<Rightarrow> None)"
| "entry_name _ = None"

definition listed_names :: "envelope \<Rightarrow> string list" where
  "listed_names resp =
     (case map_of (data resp) ''list'' of
        Some (PyList entries) \<Rightarrow> List.map_filter entry_name entries
      | _ \<Rightarrow> [])"

definition returned_rank :: "envelope \<Rightarrow> int option" where
  "returned_rank resp =
     (case map_of (data resp) ''rank'' of Some (PyInt r) \<Rightarrow> Some r | _ \<Rightarrow> None)"

text \<open>
  The ranks an execution hands out, in order: each name that an event adds to the roster,
  with the rank stored for it.
\<close>

definition new_entries :: "reference_server \<Rightarrow> reference_server \<Rightarrow> (string \<times> int) list" where
  "new_entries rs rs' =
     map (\<lambda>(name, info). (name, rank info))
       (filter (\<lambda>(name, info). map_of (servers rs) name = None) (servers rs'))"

fun allocations :: "reference_server \<Rightarrow> event list \<Rightarrow> (string \<times> int) list" where
  "allocations rs [] = []"
| "allocations rs (e # es) = new_entries rs (step rs e) @ allocations (step rs e) es"

text \<open>The pairs (name, rank) that \<open>rank\<close> responses of an execution carry.\<close>

fun rank_responses :: "reference_server \<Rightarrow> event list \<Rightarrow> (string \<times> int) list" where
  "rank_responses rs [] = []"
| "rank_responses rs (Cleanup now # es) = rank_responses (step rs (Cleanup now)) es"
| "rank_responses rs (Request req now # es) =
     (case returned_rank (fst (process_request rs req now)) of
        Some r \<Rightarrow> [(get_or (req_user req) '''', r)]
      | None \<Rightarrow> [])
     @ rank_responses (step rs (Request req now)) es"

section \<open>Election manager\<close>

record known_server =
  ks_name :: string
  ks_rank :: int

record election_log_entry =
  le_timestamp :: real
  le_event :: string
  le_server :: string
  le_rank :: int
  le_local_server :: string

record saved_election_log =
  sl_server :: string
  sl_log :: "election_log_entry list"

text \<open>
  \<open>election_log_json\<close> is the file \<open>replication/election_log.json\<close>, as
  \<open>_log_election_event\<close> wrote it last.
\<close>

record election_manager =
  em_server_name :: string
  em_rank :: int
  is_coordinator :: bool
  coordinator :: "string option"
  election_in_progress :: bool
  known_servers :: "known_server list"
  election_log :: "election_log_entry list"
  election_log_json :: "saved_election_log disk_file"

text \<open>A thread the handler starts, named by its target.\<close>

datatype thread = StartElection

text \<open>
  \<open>_handle_election_request\<close>: \<open>data_rank\<close> and \<open>data_server\<close> are the \<open>rank\<close> and
  \<open>server\<close> fields of the request. Returns the response and the threads started.
\<close>

definition handle_election_request ::
  "election_manager \<Rightarrow> int option \<Rightarrow> string option \<Rightarrow> real \<Rightarrow> envelope \<times> thread list" where
  "handle_election_request em data_rank data_server now =
     (let requester_rank = get_or data_rank 0;
          requester_name = get_or data_server '''';
          started = (if em_rank em > requester_rank then [StartElection] else [])
      in (\<lparr>service = ''election'',
           data = [(''status'', PyStr ''OK''), (''rank'', PyInt (em_rank em)),
                   (''server'', PyStr (em_server_name em)), (''timestamp'', PyFloat now)]\<rparr>,
          started))"

text \<open>
  What the manager puts on the network: a publication on a topic of the PUB socket, or a
  request to the election port of a peer.
\<close>

datatype net_send = Publish string envelope | Send string envelope

definition log_election_event ::
  "election_manager \<Rightarrow> string \<Rightarrow> string \<Rightarrow> int \<Rightarrow> real \<Rightarrow> election_manager" where
  "log_election_event em event_type server rnk now =
     (let log_entry = \<lparr>le_timestamp = now, le_event = event_type, le_server = server,
                        le_rank = rnk, le_local_server = em_server_name em\<rparr>;
          lg = election_log em @ [log_entry]
      in em\<lparr>election_log := lg,
            election_log_json := Content \<lparr>sl_server = em_server_name em, sl_log = lg\<rparr>\<rparr>)"

definition publish_coordinator_announcement :: "election_manager \<Rightarrow> real \<Rightarrow> net_send list" where
  "publish_coordinator_announcement em now =
     [Publish ''servers''
        \<lparr>service = ''election'',
         data = [(''event'', PyStr ''new_coordinator''),
                 (''coordinator'', PyStr (em_server_name em)),
                 (''rank'', PyInt (em_rank em)), (''timestamp'', PyFloat now)]\<rparr>]"

definition announce_to_all_servers :: "election_manager \<Rightarrow> real \<Rightarrow> net_send list" where
  "announce_to_all_servers em now =
     map (\<lambda>s. Send (''tcp://'' @ ks_name s @ '':6001'')
                 \<lparr>service = ''coordinator'',
                  data = [(''coordinator'', PyStr (em_server_name em)),
                          (''rank'', PyInt (em_rank em)), (''timestamp'', PyFloat now)]\<rparr>)
       (filter (\<lambda>s. ks_name s \<noteq> em_server_name em) (known_servers em))"

definition become_coordinator ::
  "election_manager \<Rightarrow> real \<Rightarrow> election_manager \<times> net_send list" where
  "become_coordinator em now =
     (let em1 = em\<lparr>is_coordinator := True, coordinator := Some (em_server_name em),
                    election_in_progress := False\<rparr>;
          em2 = log_election_event em1 ''became_coordinator'' (em_server_name em1) (em_rank em1) now
      in (em2, publish_coordinator_announcement em2 now @ announce_to_all_servers em2 now))"

text \<open>
  \<open>start_election\<close>. \<open>reply\<close> gives, for the name of a peer, the response to the
  election request sent to it, or \<open>None\<close> when the exchange times out or fails. Returns
  the manager afterwards and what was sent. An election already in progress makes the call
  return at once.
\<close>

definition start_election ::
  "election_manager \<Rightarrow> (string \<Rightarrow> envelope option) \<Rightarrow> real \<Rightarrow> election_manager \<times> net_send list" where
  "start_election em reply now =
     (if election_in_progress em then (em, [])
      else
        (let em1 = em\<lparr>election_in_progress := True\<rparr>;
             em2 = log_election_event em1 ''election_started'' (em_server_name em1) (em_rank em1) now;
             higher_rank_servers =
               filter (\<lambda>s. ks_rank s > em_rank em2 \<and> ks_name s \<noteq> em_server_name em2)
                 (known_servers em2)
         in if higher_rank_servers = [] then become_coordinator em2 now
            else
              (let requests =
                     map (\<lambda>s. Send (''tcp://'' @ ks_name s @ '':6001'')
                                 \<lparr>service = ''election'',
                                  data = [(''rank'', PyInt (em_rank em2)),
                                          (''server'', PyStr (em_server_name em2)),
                                          (''timestamp'', PyFloat now)]\<rparr>)
                       higher_rank_servers;
                   oks = filter (\<lambda>s. case reply (ks_name s) of
                                         Some resp \<Rightarrow> map_of (data resp) ''status'' = Some (PyStr ''OK'')
                                       | None \<Rightarrow> False)
                           higher_rank_servers;
                   received_ok = (oks \<noteq> [])
               in if \<not> received_ok then
                    (let (em3, sent) = become_coordinator em2 now in (em3, requests @ sent))
                  else (em2\<lparr>election_in_progress := False\<rparr>, requests))))"

text \<open>Running a thread the handler started, in the state the manager has by then.\<close>

fun run_thread ::
  "election_manager \<Rightarrow> thread \<Rightarrow> (string \<Rightarrow> envelope option) \<Rightarrow> real
     \<Rightarrow> election_manager \<times> net_send list" where
  "run_thread em StartElection reply now = start_election em reply now"

text \<open>The elections a manager has begun: the \<open>election_started\<close> entries of its log.\<close>

definition elections_started :: "election_manager \<Rightarrow> election_log_entry list" where
  "elections_started em = filter (\<lambda>e. le_event e = ''election_started'') (election_log em)"

section \<open>Berkeley synchronizer\<close>

text \<open>
  \<open>calculate_offsets\<close> over exact numbers: the dictionary of samples is an association
  list with one entry per server.
\<close>

definition calculate_offsets :: "(string \<times> real) list \<Rightarrow> (string \<times> real) list" where
  "calculate_offsets timestamps =
     (if timestamps = [] then []
      else
        (let avg_time = sum_list (map snd timestamps) / real (length timestamps)
         in map (\<lambda>(server_name, ts). (server_name, avg_time - ts)) timestamps))"

section \<open>Reading responses\<close>

definition status_of :: "envelope \<Rightarrow> pyval option" where
  "status_of resp = map_of (data resp) ''status''"

definition description_of :: "envelope \<Rightarrow> pyval option" where
  "description_of resp = map_of (data resp) ''description''"

section \<open>Example inputs\<close>

definition empty_store :: datastore where
  "empty_store = \<lparr>logins_json = NotExists, channels_json = NotExists, messages_json = NotExists\<rparr>"

definition login_of :: "string \<Rightarrow> login" where
  "login_of name = \<lparr>user = Some name, timestamp = Some 1, clock = Some 1\<rparr>"

definition publish_at :: "real \<Rightarrow> string \<Rightarrow> message" where
  "publish_at t text =
     \<lparr>msg_type = Some ''publish'', msg_timestamp = Some t, msg_clock = Some 1,
      msg_user = Some ''alice'', msg_src = None, msg_channel = Some ''geral'', msg_dst = None,
      msg_text = Some text\<rparr>"

text \<open>
  A server of rank 3 that knows a peer of rank 5 and is in the middle of an election, and
  the same server at rest.
\<close>

definition idle_manager :: election_manager where
  "idle_manager =
     \<lparr>em_server_name = ''s3'', em_rank = 3, is_coordinator = False, coordinator = None,
      election_in_progress = False,
      known_servers = [\<lparr>ks_name = ''s5'', ks_rank = 5\<rparr>],
      election_log = [], election_log_json = NotExists\<rparr>"

definition busy_manager :: election_manager where
  "busy_manager = idle_manager\<lparr>election_in_progress := True\<rparr>"

definition example_server :: message_server where
  "example_server =
     \<lparr>users = {''alice''}, ms_clock = \<lparr>counter = 0\<rparr>,
      ms_datastore = \<lparr>logins_json = NotExists, channels_json = NotExists,
                      messages_json = NotExists\<rparr>\<rparr>"

definition rank_req :: "string \<Rightarrow> request" where
  "rank_req name = \<lparr>req_service = ''rank'', req_user = Some name, req_clock = Some 1\<rparr>"

definition heartbeat_req :: "string \<Rightarrow> request" where
  "heartbeat_req name = \<lparr>req_service = ''heartbeat'', req_user = Some name, req_clock = Some 1\<rparr>"

text \<open>
  A registry where \<open>s1\<close> asked for its rank at time 0 and the sweep then ran at time 29.
\<close>

definition stale_registry :: reference_server where
  "stale_registry =
     step (step init_reference_server (Request (rank_req ''s1'') 0)) (Cleanup 29)"

definition example_run :: "event list" where
  "example_run = [Request (rank_req ''s1'') 0, Request (heartbeat_req ''s2'') 1,
                  Request (rank_req ''s2'') 2, Cleanup 40, Request (rank_req ''s1'') 50]"

section \<open>Properties of the merge\<close>

lemma users_of_iff: "u \<in> users_of xs \<longleftrightarrow> (\<exists>l \<in> set xs. user l = Some u)"
  by (induction xs) (auto simp: users_of_def map_filter_simps split: option.splits)

lemma channels_of_iff: "n \<in> channels_of xs \<longleftrightarrow> (\<exists>c \<in> set xs. channel c = Some n)"
  by (induction xs) (auto simp: channels_of_def map_filter_simps split: option.splits)

lemma users_of_append [simp]: "users_of (xs @ ys) = users_of xs \<union> users_of ys"
  by (auto simp: users_of_iff)

lemma channels_of_append [simp]: "channels_of (xs @ ys) = channels_of xs \<union> channels_of ys"
  by (auto simp: channels_of_iff)

text \<open>The loop adds exactly the users of the payload that were not seen before.\<close>

lemma merge_logins_loop_users:
  "users_of (merge_logins_loop existing seen new) = users_of existing \<union> (users_of new - seen)"
proof (induction new arbitrary: existing seen)
  case Nil
  then show ?case by (simp add: users_of_def map_filter_simps)
next
  case (Cons l new)
  show ?case
  proof (cases "user l")
    case None
    then have "users_of (l # new) = users_of new" by (auto simp: users_of_iff)
    with None Cons show ?thesis by simp
  next
    case (Some u)
    then have "users_of (l # new) = insert u (users_of new)" "users_of [l] = {u}"
      by (auto simp: users_of_iff)
    with Some Cons show ?thesis by auto
  qed
qed

text \<open>A payload whose users are all known leaves the list as it is.\<close>

lemma merge_logins_loop_seen:
  "users_of new \<subseteq> seen \<Longrightarrow> merge_logins_loop existing seen new = existing"
proof (induction new)
  case Nil
  then show ?case by simp
next
  case (Cons l new)
  then have "users_of new \<subseteq> seen" by (auto simp: users_of_iff)
  moreover have "user l = Some u \<Longrightarrow> u \<in> seen" for u
    using Cons.prems by (auto simp: users_of_iff)
  ultimately show ?case using Cons.IH by (auto split: option.splits)
qed

lemma merge_logins_idem: "merge_logins (merge_logins ds new) new = merge_logins ds new"
  by (simp add: merge_logins_def Let_def merge_logins_loop_seen merge_logins_loop_users)

lemma merge_channels_loop_channels:
  "channels_of (merge_channels_loop existing seen new)
     = channels_of existing \<union> (channels_of new - seen)"
proof (induction new arbitrary: existing seen)
  case Nil
  then show ?case by (simp add: channels_of_def map_filter_simps)
next
  case (Cons c new)
  show ?case
  proof (cases "channel c")
    case None
    then have "channels_of (c # new) = channels_of new" by (auto simp: channels_of_iff)
    with None Cons show ?thesis by simp
  next
    case (Some n)
    then have "channels_of (c # new) = insert n (channels_of new)" "channels_of [c] = {n}"
      by (auto simp: channels_of_iff)
    with Some Cons show ?thesis by auto
  qed
qed

lemma merge_channels_loop_seen:
  "channels_of new \<subseteq> seen \<Longrightarrow> merge_channels_loop existing seen new = existing"
proof (induction new)
  case Nil
  then show ?case by simp
next
  case (Cons c new)
  then have "channels_of new \<subseteq> seen" by (auto simp: channels_of_iff)
  moreover have "channel c = Some n \<Longrightarrow> n \<in> seen" for n
    using Cons.prems by (auto simp: channels_of_iff)
  ultimately show ?case using Cons.IH by (auto split: option.splits)
qed

lemma merge_channels_idem: "merge_channels (merge_channels ds new) new = merge_channels ds new"
  by (simp add: merge_channels_def Let_def merge_channels_loop_seen merge_channels_loop_channels)

lemma merge_messages_loop_ids:
  "get_message_id ` set (merge_messages_loop existing seen new)
     = get_message_id ` set existing \<union> (get_message_id ` set new - seen)"
  by (induction new arbitrary: existing seen) auto

lemma merge_messages_loop_seen:
  "get_message_id ` set new \<subseteq> seen \<Longrightarrow> merge_messages_loop existing seen new = existing"
  by (induction new) auto

text \<open>
  The second merge finds every identifier of the payload in the stored list, appends
  nothing, and sorts a list that is sorted already.
\<close>

lemma merge_messages_idem: "merge_messages (merge_messages ds new) new = merge_messages ds new"
  by (simp add: merge_messages_def Let_def merge_messages_loop_seen merge_messages_loop_ids
      sort_key_id_if_sorted)

text \<open>
  C9. Merge is idempotent: for every store and every replication payload of any of the
  three types, merging the payload a second time leaves the store, and so each stored
  list, exactly as the first merge left it.
\<close>

theorem merge_idempotent: "merge (merge ds X) X = merge ds X"
  by (cases X) (simp_all add: merge_logins_idem merge_channels_idem merge_messages_idem)

section \<open>Merging in both orders\<close>

lemma get_message_id_key: "get_message_id a = get_message_id b \<Longrightarrow> sort_key_of a = sort_key_of b"
  by (simp add: get_message_id_def sort_key_of_def Let_def)

lemma inj_on_message_id: "inj_on sort_key_of A \<Longrightarrow> inj_on get_message_id A"
  by (meson get_message_id_key inj_on_def)

lemma merge_messages_loop_mset:
  assumes "inj_on get_message_id A"
  shows "set existing \<union> set new \<subseteq> A \<Longrightarrow>
    mset (merge_messages_loop existing (get_message_id ` set existing) new)
      = mset existing + mset_set (set new - set existing)"
proof (induction new arbitrary: existing)
  case Nil
  then show ?case by simp
next
  case (Cons m new)
  have mem: "get_message_id m \<in> get_message_id ` set existing \<longleftrightarrow> m \<in> set existing"
    using assms Cons.prems by (intro inj_on_image_mem_iff [of _ A]) auto
  show ?case
  proof (cases "m \<in> set existing")
    case True
    then have "set (m # new) - set existing = set new - set existing" by auto
    with True mem Cons show ?thesis by simp
  next
    case False
    have ids: "insert (get_message_id m) (get_message_id ` set existing)
        = get_message_id ` set (existing @ [m])" by simp
    have sub: "set (existing @ [m]) \<union> set new \<subseteq> A" using Cons.prems by auto
    have split: "set (m # new) - set existing = insert m (set new - set (existing @ [m]))"
      using False by auto
    have "mset (merge_messages_loop existing (get_message_id ` set existing) (m # new))
        = mset (merge_messages_loop (existing @ [m]) (get_message_id ` set (existing @ [m])) new)"
      using False mem ids by simp
    also have "\<dots> = mset (existing @ [m]) + mset_set (set new - set (existing @ [m]))"
      by (rule Cons.IH [OF sub])
    also have "\<dots> = mset existing + mset_set (insert m (set new - set (existing @ [m])))"
      by simp
    finally show ?thesis using split by simp
  qed
qed

lemma sort_key_inj_mset:
  assumes "inj_on f (set xs)" "mset xs = mset ys"
  shows "sort_key f xs = sort_key f ys"
proof (rule properties_for_sort_key)
  show "mset (sort_key f ys) = mset xs" using assms(2) by simp
  show "sorted (map f (sort_key f ys))" by simp
  fix k assume "k \<in> set (sort_key f ys)"
  have sets: "set ys = set xs" using assms(2) by (metis set_mset_mset)
  have eq: "filter (\<lambda>x. f x = f k) zs = filter ((=) k) zs" if "set zs = set xs" for zs
    using that assms(1) \<open>k \<in> set (sort_key f ys)\<close> sets
    by (intro filter_cong refl) (auto dest: inj_onD)
  have "filter (\<lambda>x. f k = f x) (sort_key f ys) = filter (\<lambda>x. f x = f k) (sort_key f ys)"
    by (simp add: eq_commute)
  also have "\<dots> = filter (\<lambda>x. f x = f k) ys" by (rule sort_key_stable)
  also have "\<dots> = filter ((=) k) ys" using eq sets by simp
  also have "\<dots> = replicate (count (mset ys) k) k"
    by (simp add: replicate_count_mset_eq_filter_eq)
  also have "\<dots> = replicate (count (mset xs) k) k" using assms(2) by simp
  also have "\<dots> = filter ((=) k) xs" by (simp add: replicate_count_mset_eq_filter_eq)
  also have "\<dots> = filter (\<lambda>x. f x = f k) xs" using eq by simp
  also have "\<dots> = filter (\<lambda>x. f k = f x) xs" by (simp add: eq_commute)
  finally show "filter (\<lambda>x. f k = f x) (sort_key f ys) = filter (\<lambda>x. f k = f x) xs" .
qed

lemma stored_logins_merge:
  "users_of (load_list (logins_json (merge_logins ds new)))
     = users_of (load_list (logins_json ds)) \<union> users_of new"
  by (auto simp: merge_logins_def Let_def merge_logins_loop_users)

lemma stored_channels_merge:
  "channels_of (load_list (channels_json (merge_channels ds new)))
     = channels_of (load_list (channels_json ds)) \<union> channels_of new"
  by (auto simp: merge_channels_def Let_def merge_channels_loop_channels)

lemma stored_messages_merge:
  "get_message_id ` set (load_list (messages_json (merge_messages ds new)))
     = get_message_id ` set (load_list (messages_json ds)) \<union> get_message_id ` set new"
  by (auto simp: merge_messages_def Let_def merge_messages_loop_ids)

lemma stored_messages_sorted:
  "sorted (map sort_key_of (load_list (messages_json (merge_messages ds new))))"
  by (simp add: merge_messages_def Let_def)

text \<open>The list a merge stores, when the sort key tells all records involved apart.\<close>

lemma merge_messages_mset:
  assumes "inj_on sort_key_of A" "set (load_list (messages_json ds)) \<union> set new \<subseteq> A"
  shows "mset (load_list (messages_json (merge_messages ds new)))
           = mset (load_list (messages_json ds))
             + mset_set (set new - set (load_list (messages_json ds)))"
  using merge_messages_loop_mset [OF inj_on_message_id [OF assms(1)] assms(2)]
  by (simp add: merge_messages_def Let_def)

lemma merge_messages_twice_mset:
  assumes "inj_on sort_key_of A" "set (load_list (messages_json ds)) \<union> set X \<union> set Y \<subseteq> A"
  shows "mset (load_list (messages_json (merge_messages (merge_messages ds X) Y)))
           = mset (load_list (messages_json ds))
             + mset_set ((set X \<union> set Y) - set (load_list (messages_json ds)))"
proof -
  let ?S = "load_list (messages_json ds)"
  let ?R = "load_list (messages_json (merge_messages ds X))"
  have R: "mset ?R = mset ?S + mset_set (set X - set ?S)"
    using assms by (intro merge_messages_mset [of A]) auto
  then have "set_mset (mset ?R) = set_mset (mset ?S + mset_set (set X - set ?S))" by simp
  then have setR: "set ?R = set ?S \<union> set X" by auto
  have "mset (load_list (messages_json (merge_messages (merge_messages ds X) Y)))
      = mset ?R + mset_set (set Y - set ?R)"
    using assms setR by (intro merge_messages_mset [of A]) auto
  also have "\<dots> = mset ?S + (mset_set (set X - set ?S) + mset_set (set Y - (set ?S \<union> set X)))"
    using R setR by simp
  also have "mset_set (set X - set ?S) + mset_set (set Y - (set ?S \<union> set X))
      = mset_set ((set X - set ?S) \<union> (set Y - (set ?S \<union> set X)))"
    by (rule mset_set_Union [symmetric]) auto
  also have "(set X - set ?S) \<union> (set Y - (set ?S \<union> set X)) = (set X \<union> set Y) - set ?S"
    by auto
  finally show ?thesis .
qed

lemma merge_messages_twice:
  "merge_messages (merge_messages ds X) Y
     = ds\<lparr>messages_json := messages_json (merge_messages (merge_messages ds X) Y)\<rparr>"
  by (simp add: merge_messages_def Let_def)

lemma merge_messages_stored:
  "messages_json (merge_messages ds new)
     = Content (load_list (messages_json (merge_messages ds new)))"
  by (simp add: merge_messages_def Let_def)

lemma merge_messages_commute:
  assumes "inj_on sort_key_of (set (load_list (messages_json ds)) \<union> set X \<union> set Y)"
  shows "merge_messages (merge_messages ds X) Y = merge_messages (merge_messages ds Y) X"
proof -
  let ?A = "set (load_list (messages_json ds)) \<union> set X \<union> set Y"
  let ?XY = "load_list (messages_json (merge_messages (merge_messages ds X) Y))"
  let ?YX = "load_list (messages_json (merge_messages (merge_messages ds Y) X))"
  have m1: "mset ?XY = mset (load_list (messages_json ds))
                + mset_set ((set X \<union> set Y) - set (load_list (messages_json ds)))"
    using assms by (intro merge_messages_twice_mset [of ?A]) auto
  have m2: "mset ?YX = mset (load_list (messages_json ds))
                + mset_set ((set Y \<union> set X) - set (load_list (messages_json ds)))"
    using assms by (intro merge_messages_twice_mset [of ?A]) auto
  have ms: "mset ?XY = mset ?YX" using m1 m2 by (simp add: Un_commute)
  from m1 have "set_mset (mset ?XY) = set_mset (mset (load_list (messages_json ds))
                + mset_set ((set X \<union> set Y) - set (load_list (messages_json ds))))" by simp
  then have "set ?XY = ?A" by auto
  with assms have inj: "inj_on sort_key_of (set ?XY)" by simp
  have "?XY = sort_key sort_key_of ?XY"
    by (simp add: sort_key_id_if_sorted stored_messages_sorted)
  also have "\<dots> = sort_key sort_key_of ?YX" using inj ms by (rule sort_key_inj_mset)
  also have "\<dots> = ?YX" by (simp add: sort_key_id_if_sorted stored_messages_sorted)
  finally have "messages_json (merge_messages (merge_messages ds X) Y)
      = messages_json (merge_messages (merge_messages ds Y) X)"
    using merge_messages_stored [of "merge_messages ds X" Y]
      merge_messages_stored [of "merge_messages ds Y" X] by simp
  then show ?thesis
    using merge_messages_twice [of ds X Y] merge_messages_twice [of ds Y X] by simp
qed

text \<open>
  C1, as the code has it. For every store and every two payloads of the same type, the two
  delivery orders store lists with the same identifying keys: the same users, the same
  channel names, the same message identifiers; both message lists are sorted by
  \<open>(timestamp, clock)\<close>. When no two different message records among the stored list
  and the two payloads share their \<open>(timestamp, clock)\<close> pair, the two orders leave the
  very same store. The lists of logins and channels keep arrival order, a message list keeps
  arrival order among records with equal \<open>(timestamp, clock)\<close>, and of two records with
  the same key the one that arrives first is kept.
\<close>

theorem merge_commutes_on_keys:
  "users_of (load_list (logins_json (merge_logins (merge_logins ds XL) YL)))
     = users_of (load_list (logins_json (merge_logins (merge_logins ds YL) XL)))
   \<and> channels_of (load_list (channels_json (merge_channels (merge_channels ds XC) YC)))
     = channels_of (load_list (channels_json (merge_channels (merge_channels ds YC) XC)))
   \<and> get_message_id ` set (load_list (messages_json (merge_messages (merge_messages ds XM) YM)))
     = get_message_id ` set (load_list (messages_json (merge_messages (merge_messages ds YM) XM)))
   \<and> sorted (map sort_key_of (load_list (messages_json (merge_messages (merge_messages ds XM) YM))))
   \<and> sorted (map sort_key_of (load_list (messages_json (merge_messages (merge_messages ds YM) XM))))
   \<and> (inj_on sort_key_of (set (load_list (messages_json ds)) \<union> set XM \<union> set YM) \<longrightarrow>
        merge_messages (merge_messages ds XM) YM = merge_messages (merge_messages ds YM) XM)"
proof (intro conjI impI)
  show "users_of (load_list (logins_json (merge_logins (merge_logins ds XL) YL)))
      = users_of (load_list (logins_json (merge_logins (merge_logins ds YL) XL)))"
    by (simp add: stored_logins_merge Un_ac)
  show "channels_of (load_list (channels_json (merge_channels (merge_channels ds XC) YC)))
      = channels_of (load_list (channels_json (merge_channels (merge_channels ds YC) XC)))"
    by (simp add: stored_channels_merge Un_ac)
  show "get_message_id ` set (load_list (messages_json (merge_messages (merge_messages ds XM) YM)))
      = get_message_id ` set (load_list (messages_json (merge_messages (merge_messages ds YM) XM)))"
    by (simp add: stored_messages_merge Un_ac)
  show "sorted (map sort_key_of
                  (load_list (messages_json (merge_messages (merge_messages ds XM) YM))))"
    by (rule stored_messages_sorted)
  show "sorted (map sort_key_of
                  (load_list (messages_json (merge_messages (merge_messages ds YM) XM))))"
    by (rule stored_messages_sorted)
  show "merge_messages (merge_messages ds XM) YM = merge_messages (merge_messages ds YM) XM"
    if "inj_on sort_key_of (set (load_list (messages_json ds)) \<union> set XM \<union> set YM)"
    using that by (rule merge_messages_commute)
qed

theorem merge_commutes_on_keys_witness:
  "inj_on sort_key_of (set (load_list (messages_json empty_store))
                        \<union> set [publish_at 2 ''m1''] \<union> set [publish_at 1 ''m2''])
   \<and> messages_json (merge_messages (merge_messages empty_store [publish_at 2 ''m1''])
                       [publish_at 1 ''m2''])
       = Content [publish_at 1 ''m2'', publish_at 2 ''m1'']
   \<and> messages_json (merge_messages (merge_messages empty_store [publish_at 1 ''m2''])
                       [publish_at 2 ''m1''])
       = Content [publish_at 1 ''m2'', publish_at 2 ''m1'']"
  using merge_commutes_on_keys [of empty_store "[]" "[]" "[]" "[]"
      "[publish_at 2 ''m1'']" "[publish_at 1 ''m2'']"]
  by (simp add: empty_store_def publish_at_def merge_messages_def get_message_id_def
      get_or_def sort_key_of_def Let_def)

text \<open>
  C1, as stated, fails. Two logins delivered in the two orders are stored in the two
  orders; so are two messages with the same timestamp and clock.
\<close>

theorem merge_order_counterexample:
  "logins_json (merge (merge empty_store (Logins [login_of ''alice''])) (Logins [login_of ''bob'']))
     = Content [login_of ''alice'', login_of ''bob'']
   \<and> logins_json (merge (merge empty_store (Logins [login_of ''bob''])) (Logins [login_of ''alice'']))
     = Content [login_of ''bob'', login_of ''alice'']
   \<and> [login_of ''alice'', login_of ''bob''] \<noteq> [login_of ''bob'', login_of ''alice'']
   \<and> messages_json (merge (merge empty_store (Messages [publish_at 1 ''m1''])) (Messages [publish_at 1 ''m2'']))
     = Content [publish_at 1 ''m1'', publish_at 1 ''m2'']
   \<and> messages_json (merge (merge empty_store (Messages [publish_at 1 ''m2''])) (Messages [publish_at 1 ''m1'']))
     = Content [publish_at 1 ''m2'', publish_at 1 ''m1'']
   \<and> [publish_at 1 ''m1'', publish_at 1 ''m2''] \<noteq> [publish_at 1 ''m2'', publish_at 1 ''m1'']"
  by (simp add: empty_store_def login_of_def publish_at_def merge_logins_def merge_messages_def
      users_of_def map_filter_simps get_message_id_def get_or_def sort_key_of_def Let_def)

section \<open>Properties of the persistence store and the codec\<close>

text \<open>
  C2, as the code has it. When the file is missing or does not parse, \<open>load\<close> returns
  the given default if that is not \<open>None\<close>, and the empty list if it is \<open>None\<close>; it
  raises nothing.
\<close>

theorem load_missing_or_unparsable:
  "data_dir filename = NotExists \<or> data_dir filename = Unparsable \<Longrightarrow>
   load data_dir filename dflt = (if dflt = PyNone then PyList [] else dflt)"
  by (auto simp: load_def)

theorem load_missing_or_unparsable_witness:
  "load (\<lambda>_. NotExists) ''logins.json'' (PyDict []) = PyDict []
   \<and> load (\<lambda>_. Unparsable) ''logins.json'' PyNone = PyList []"
  using load_missing_or_unparsable [of "\<lambda>_. NotExists" "''logins.json''" "PyDict []"]
    load_missing_or_unparsable [of "\<lambda>_. Unparsable" "''logins.json''" PyNone]
  by simp

text \<open>
  C2, as stated, fails for the default \<open>None\<close>: on a missing file \<open>load\<close> returns the
  empty list, not \<open>None\<close>.
\<close>

theorem load_default_None_counterexample:
  "load (\<lambda>_. NotExists) ''logins.json'' PyNone \<noteq> PyNone"
  by (simp add: load_def)

text \<open>
  C10. \<open>create_message\<close> writes to the dictionary of its caller: after the call the object
  behind \<open>data_ref\<close> is the old one with \<open>timestamp\<close> set to the time read and \<open>clock\<close>
  set to the incremented counter, whatever it held under these keys, and the packed
  envelope carries that same dictionary.
\<close>

theorem create_message_mutates_data:
  "let (env, clk', h') = create_message svc data_ref clk now h in
     h' = h(data_ref := AList.update ''clock'' (PyInt (counter clk + 1))
                          (AList.update ''timestamp'' (PyFloat now) (h data_ref)))
     \<and> map_of (h' data_ref) ''timestamp'' = Some (PyFloat now)
     \<and> map_of (h' data_ref) ''clock'' = Some (PyInt (counter clk + 1))
     \<and> counter clk' = counter clk + 1
     \<and> data env = h' data_ref
     \<and> map_of (data env) ''timestamp'' = map_of (h' data_ref) ''timestamp''
     \<and> map_of (data env) ''clock'' = map_of (h' data_ref) ''clock''"
  by (simp add: create_message_def increment_def packb_def Let_def update_conv')

section \<open>Properties of the login handler\<close>

lemma create_response_status:
  "map_of (data (fst (create_response svc st [] clk d now))) ''status'' = Some (PyStr st)"
  by (auto simp: create_response_def increment_def dict_update_def Let_def update_conv'
      split: option.splits)

lemma create_response_description:
  "d \<noteq> '''' \<Longrightarrow>
   map_of (data (fst (create_response svc st [] clk (Some d) now))) ''description''
     = Some (PyStr d)"
  by (auto simp: create_response_def increment_def dict_update_def Let_def update_conv'
      split: option.splits)

lemma handle_login_missing:
  "get_or data_user '''' = '''' \<Longrightarrow>
   handle_login ms data_user now =
     (fst (create_response ''login'' ''erro'' [] (ms_clock ms) (Some desc_user_missing) now),
      ms\<lparr>ms_clock := snd (create_response ''login'' ''erro'' [] (ms_clock ms)
                             (Some desc_user_missing) now)\<rparr>)"
  by (simp add: handle_login_def Let_def case_prod_unfold)

lemma handle_login_registered:
  "get_or data_user '''' \<noteq> '''' \<Longrightarrow> get_or data_user '''' \<in> users ms \<Longrightarrow>
   handle_login ms data_user now =
     (fst (create_response ''login'' ''erro'' [] (ms_clock ms) (Some desc_user_registered) now),
      ms\<lparr>ms_clock := snd (create_response ''login'' ''erro'' [] (ms_clock ms)
                             (Some desc_user_registered) now)\<rparr>)"
  by (simp add: handle_login_def Let_def case_prod_unfold)

lemma handle_login_new:
  "get_or data_user '''' \<noteq> '''' \<Longrightarrow> get_or data_user '''' \<notin> users ms \<Longrightarrow>
   fst (handle_login ms data_user now)
     = fst (create_response ''login'' ''sucesso'' [] (ms_clock ms) None now)
   \<and> users (snd (handle_login ms data_user now)) = insert (get_or data_user '''') (users ms)"
  by (simp add: handle_login_def Let_def case_prod_unfold)

text \<open>
  C8. A login request is answered with status \<open>erro\<close> exactly when its user field is
  missing or empty or names a registered user; the set of users is then unchanged, and in
  the duplicate case the description is the one for a registered user. Otherwise the
  answer has status \<open>sucesso\<close> and the set of users is the old one plus that user.
\<close>

theorem handle_login_status:
  "(status_of (fst (handle_login ms data_user now)) = Some (PyStr ''erro'')
      \<longleftrightarrow> data_user = None \<or> data_user = Some '''' \<or> (\<exists>u. data_user = Some u \<and> u \<in> users ms))
   \<and> (if data_user = None \<or> data_user = Some '''' \<or> (\<exists>u. data_user = Some u \<and> u \<in> users ms)
       then users (snd (handle_login ms data_user now)) = users ms
         \<and> (\<forall>u. data_user = Some u \<and> u \<noteq> '''' \<longrightarrow>
              description_of (fst (handle_login ms data_user now))
                = Some (PyStr desc_user_registered))
       else status_of (fst (handle_login ms data_user now)) = Some (PyStr ''sucesso'')
         \<and> (\<forall>u. data_user = Some u \<longrightarrow>
              users (snd (handle_login ms data_user now)) = insert u (users ms)))"
proof -
  let ?usr = "get_or data_user ''''"
  consider (missing) "?usr = ''''" | (dup) "?usr \<noteq> ''''" "?usr \<in> users ms"
    | (new) "?usr \<noteq> ''''" "?usr \<notin> users ms" by blast
  then show ?thesis
  proof cases
    case missing
    then have "data_user = None \<or> data_user = Some ''''"
      by (cases data_user) (auto simp: get_or_def)
    then show ?thesis
      using handle_login_missing [OF missing, of ms now]
      by (auto simp: status_of_def create_response_status)
  next
    case dup
    then obtain u where u: "data_user = Some u" "u \<noteq> ''''" "u \<in> users ms"
      by (cases data_user) (auto simp: get_or_def)
    have "desc_user_registered \<noteq> ''''" by (simp add: desc_user_registered_def)
    then show ?thesis
      using handle_login_registered [OF dup, of now] u
      by (auto simp: status_of_def description_of_def create_response_status
          create_response_description)
  next
    case new
    then obtain u where u: "data_user = Some u" "u \<noteq> ''''" "u \<notin> users ms"
      by (cases data_user) (auto simp: get_or_def)
    then show ?thesis
      using handle_login_new [OF new, of now]
      by (auto simp: status_of_def create_response_status get_or_def)
  qed
qed

theorem handle_login_status_witness:
  "status_of (fst (handle_login example_server (Some ''alice'') 0)) = Some (PyStr ''erro'')
   \<and> description_of (fst (handle_login example_server (Some ''alice'') 0))
       = Some (PyStr desc_user_registered)
   \<and> users (snd (handle_login example_server (Some ''alice'') 0)) = {''alice''}
   \<and> status_of (fst (handle_login example_server (Some ''bob'') 0)) = Some (PyStr ''sucesso'')
   \<and> users (snd (handle_login example_server (Some ''bob'') 0)) = insert ''bob'' {''alice''}"
  using handle_login_status [of example_server "Some ''alice''" 0]
    handle_login_status [of example_server "Some ''bob''" 0]
  by (simp add: example_server_def)

section \<open>Properties of the election handler\<close>

lemma elections_started_become_coordinator:
  "elections_started (fst (become_coordinator em now)) = elections_started em"
  by (simp add: become_coordinator_def log_election_event_def elections_started_def Let_def)

lemma elections_started_log:
  "elections_started (log_election_event em ''election_started'' s r now)
     = elections_started em
       @ [\<lparr>le_timestamp = now, le_event = ''election_started'', le_server = s, le_rank = r,
            le_local_server = em_server_name em\<rparr>]"
  by (simp add: log_election_event_def elections_started_def Let_def)

lemma elections_started_in_progress:
  "elections_started (em\<lparr>election_in_progress := b\<rparr>) = elections_started em"
  by (simp add: elections_started_def)

lemma elections_started_start_election:
  "elections_started (fst (start_election em reply now))
     = (if election_in_progress em then elections_started em
        else elections_started em
             @ [\<lparr>le_timestamp = now, le_event = ''election_started'',
                  le_server = em_server_name em, le_rank = em_rank em,
                  le_local_server = em_server_name em\<rparr>])"
proof (cases "election_in_progress em")
  case True
  then show ?thesis by (simp add: start_election_def)
next
  case False
  let ?em1 = "em\<lparr>election_in_progress := True\<rparr>"
  let ?em2 = "log_election_event ?em1 ''election_started'' (em_server_name ?em1) (em_rank ?em1) now"
  have started: "elections_started ?em2
      = elections_started em
        @ [\<lparr>le_timestamp = now, le_event = ''election_started'',
             le_server = em_server_name em, le_rank = em_rank em,
             le_local_server = em_server_name em\<rparr>]"
    by (simp add: elections_started_log) (simp add: elections_started_def)
  have "elections_started (fst (start_election em reply now)) = elections_started ?em2"
    using False
    by (simp add: start_election_def Let_def case_prod_unfold
        elections_started_become_coordinator elections_started_in_progress)
  with started False show ?thesis by simp
qed

text \<open>
  C6, as the code has it. The answer to an election request has status \<open>OK\<close> and carries
  the rank of the receiver. The handler starts the thread that runs \<open>start_election\<close>
  exactly when the rank of the receiver is greater than the rank in the request (0 when the
  request has none), and no thread otherwise. When that thread runs, it begins a new
  election, recorded as one more \<open>election_started\<close> entry, if no election is in
  progress then; if one is in progress it returns at once, leaves the manager as it is and
  sends nothing.
\<close>

theorem handle_election_request_thread:
  "status_of (fst (handle_election_request em data_rank data_server now)) = Some (PyStr ''OK'')
   \<and> map_of (data (fst (handle_election_request em data_rank data_server now))) ''rank''
       = Some (PyInt (em_rank em))
   \<and> snd (handle_election_request em data_rank data_server now)
       = (if em_rank em > get_or data_rank 0 then [StartElection] else [])
   \<and> run_thread em' StartElection reply t
       = (if election_in_progress em' then (em', []) else start_election em' reply t)
   \<and> length (elections_started (fst (run_thread em' StartElection reply t)))
       = length (elections_started em') + (if election_in_progress em' then 0 else 1)"
  by (simp add: handle_election_request_def status_of_def Let_def
      elections_started_start_election)
    (simp add: start_election_def)

theorem handle_election_request_thread_witness:
  "snd (handle_election_request idle_manager (Some 1) (Some ''s1'') 5) = [StartElection]
   \<and> snd (handle_election_request idle_manager (Some 3) (Some ''s1'') 5) = []
   \<and> length (elections_started (fst (run_thread idle_manager StartElection (\<lambda>_. None) 6))) = 1
   \<and> length (elections_started (fst (run_thread busy_manager StartElection (\<lambda>_. None) 6))) = 0"
  using handle_election_request_thread [of idle_manager "Some 1" "Some ''s1''" 5 idle_manager
      "\<lambda>_. None" 6]
    handle_election_request_thread [of idle_manager "Some 3" "Some ''s1''" 5 busy_manager
      "\<lambda>_. None" 6]
  by (simp add: idle_manager_def busy_manager_def get_or_def elections_started_def)

text \<open>
  C6, as stated, fails when the receiver is in the middle of an election. Its rank 3 is
  greater than the rank 1 of the request and the handler starts the thread, but
  \<open>start_election\<close> returns at once: the manager is unchanged, nothing is sent and no
  election is begun.
\<close>

theorem election_in_progress_counterexample:
  "em_rank busy_manager > get_or (Some 1) 0
   \<and> snd (handle_election_request busy_manager (Some 1) (Some ''s1'') 5) = [StartElection]
   \<and> run_thread busy_manager StartElection (\<lambda>_. None) 6 = (busy_manager, [])
   \<and> elections_started (fst (run_thread busy_manager StartElection (\<lambda>_. None) 6))
       = elections_started busy_manager"
  by (simp add: handle_election_request_def start_election_def busy_manager_def
      idle_manager_def get_or_def Let_def)

section \<open>Properties of the Berkeley offsets\<close>

lemma sum_list_offsets:
  "sum_list (map (\<lambda>p. a - snd p) ts) = a * real (length ts) - sum_list (map snd ts)"
  by (induction ts) (auto simp: algebra_simps)

lemma map_of_offsets:
  "map_of (map (\<lambda>(n, t). (n, a - t)) ts) s = map_option (\<lambda>t. a - t) (map_of ts s)"
  by (induction ts) auto

text \<open>
  C7. For a non-empty map of samples, the offset of each sampled server is the mean of all
  samples minus its own sample, servers not sampled get none, and the offsets add up to
  zero.
\<close>

theorem calculate_offsets_mean:
  assumes "timestamps \<noteq> []"
  shows "map_of (calculate_offsets timestamps) s =
           map_option (\<lambda>t. sum_list (map snd timestamps) / real (length timestamps) - t)
             (map_of timestamps s)
         \<and> sum_list (map snd (calculate_offsets timestamps)) = 0"
proof -
  let ?mu = "sum_list (map snd timestamps) / real (length timestamps)"
  have eq: "calculate_offsets timestamps = map (\<lambda>(n, t). (n, ?mu - t)) timestamps"
    using assms by (simp add: calculate_offsets_def)
  have len: "real (length timestamps) \<noteq> 0" using assms by simp
  have "map snd (map (\<lambda>(n, t). (n, ?mu - t)) timestamps) = map (\<lambda>p. ?mu - snd p) timestamps"
    by (simp add: case_prod_unfold)
  then have "sum_list (map snd (calculate_offsets timestamps))
               = ?mu * real (length timestamps) - sum_list (map snd timestamps)"
    using eq sum_list_offsets by metis
  also have "\<dots> = 0" using len by simp
  finally show ?thesis using eq map_of_offsets by metis
qed

theorem calculate_offsets_mean_witness:
  "[(''C'', 10), (''P1'', 12), (''P2'', 9)] \<noteq> ([] :: (string \<times> real) list)
   \<and> map_of (calculate_offsets [(''C'', 10), (''P1'', 12), (''P2'', 9)]) ''P1'' = Some (- 5 / 3)
   \<and> sum_list (map snd (calculate_offsets [(''C'', 10), (''P1'', 12), (''P2'', 9)])) = 0"
  using calculate_offsets_mean [of "[(''C'', 10), (''P1'', 12), (''P2'', 9)]" "''P1''"]
  by simp

section \<open>Properties of the registry\<close>

lemma servers_handle_rank_request:
  "servers (snd (handle_rank_request rs du now)) =
     (if get_or du '''' = '''' then servers rs
      else case map_of (servers rs) (get_or du '''') of
             Some info \<Rightarrow> AList.update (get_or du '''') (info\<lparr>last_heartbeat := now\<rparr>) (servers rs)
           | None \<Rightarrow> AList.update (get_or du '''') \<lparr>rank = next_rank rs, last_heartbeat = now\<rparr>
                       (servers rs))"
  by (simp add: handle_rank_request_def Let_def case_prod_unfold save_state_def
      split: option.splits)

lemma next_rank_handle_rank_request:
  "next_rank (snd (handle_rank_request rs du now)) =
     (if get_or du '''' \<noteq> '''' \<and> map_of (servers rs) (get_or du '''') = None
      then next_rank rs + 1 else next_rank rs)"
  by (simp add: handle_rank_request_def Let_def case_prod_unfold save_state_def
      split: option.splits)

lemma servers_handle_heartbeat:
  "servers (snd (handle_heartbeat rs du now)) =
     (if get_or du '''' = '''' then servers rs
      else case map_of (servers rs) (get_or du '''') of
             Some info \<Rightarrow> AList.update (get_or du '''') (info\<lparr>last_heartbeat := now\<rparr>) (servers rs)
           | None \<Rightarrow> AList.update (get_or du '''') \<lparr>rank = next_rank rs, last_heartbeat = now\<rparr>
                       (servers rs))"
  by (simp add: handle_heartbeat_def Let_def case_prod_unfold split: option.splits)

lemma next_rank_handle_heartbeat:
  "next_rank (snd (handle_heartbeat rs du now)) =
     (if get_or du '''' \<noteq> '''' \<and> map_of (servers rs) (get_or du '''') = None
      then next_rank rs + 1 else next_rank rs)"
  by (simp add: handle_heartbeat_def Let_def case_prod_unfold split: option.splits)

lemma handle_list_request_state:
  "servers (snd (handle_list_request rs now)) = servers rs"
  "next_rank (snd (handle_list_request rs now)) = next_rank rs"
  by (simp_all add: handle_list_request_def Let_def case_prod_unfold)

lemma fold_delete_filter: "fold AList.delete ks al = filter (\<lambda>(k, v). k \<notin> set ks) al"
  by (induction ks arbitrary: al) (auto simp: AList.delete_eq intro: filter_cong)

lemma cleanup_state:
  "servers (cleanup_inactive_servers rs t) =
     fold AList.delete
       (map fst (filter (\<lambda>(name, info). t - last_heartbeat info > HEARTBEAT_TIMEOUT) (servers rs)))
       (servers rs)"
  "next_rank (cleanup_inactive_servers rs t) = next_rank rs"
  by (simp_all add: cleanup_inactive_servers_def Let_def save_state_def)

text \<open>
  C3. On a fresh registry, a heartbeat from the unknown server \<open>s1\<close> registers it with
  rank 1 and moves \<open>next_rank\<close> to 2, and the roster file is still missing afterwards; the
  same request on the \<open>rank\<close> path writes the roster.
\<close>

theorem heartbeat_not_saved:
  "servers (snd (handle_heartbeat init_reference_server (Some ''s1'') 5))
     = [(''s1'', \<lparr>rank = 1, last_heartbeat = 5\<rparr>)]
   \<and> next_rank (snd (handle_heartbeat init_reference_server (Some ''s1'') 5)) = 2
   \<and> reference_json (snd (handle_heartbeat init_reference_server (Some ''s1'') 5)) = NotExists
   \<and> reference_json (snd (handle_rank_request init_reference_server (Some ''s1'') 5))
       = Content \<lparr>saved_servers = [(''s1'', \<lparr>rank = 1, last_heartbeat = 5\<rparr>)],
                  saved_next_rank = 2, saved_timestamp = 5\<rparr>"
  by (simp add: handle_heartbeat_def handle_rank_request_def init_reference_server_def
      get_or_def Let_def case_prod_unfold save_state_def)


subsection \<open>Listing and eviction\<close>

lemma create_response_list:
  "map_of (data (fst (create_response svc st [(''list'', v)] clk None now))) ''list'' = Some v"
  by (simp add: create_response_def increment_def dict_update_def Let_def update_conv')

lemma entry_names:
  "List.map_filter entry_name
     (map (\<lambda>p. PyDict [(''name'', PyStr (fst p)), (''rank'', PyInt (rank (snd p)))]) al)
   = map fst al"
  by (induction al) (auto simp: map_filter_simps)

lemma listed_names_list_request:
  "listed_names (fst (handle_list_request rs now)) = map fst (servers rs)"
  by (simp add: handle_list_request_def listed_names_def Let_def case_prod_unfold
      create_response_list entry_names)

text \<open>
  C4, as the code has it. A \<open>list\<close> response names exactly the servers on the roster: the
  request itself evicts nothing. The sweep at time \<open>now\<close> removes exactly the servers with
  \<open>now - last_heartbeat > 30\<close>, so a \<open>list\<close> response after it names a server if and only
  if the server was on the roster and its last heartbeat is at most 30 seconds before the
  sweep.
\<close>

theorem list_after_cleanup:
  assumes "distinct (map fst (servers rs))"
  shows "listed_names (fst (handle_list_request rs now')) = map fst (servers rs)
    \<and> (s \<in> set (listed_names
                  (fst (handle_list_request (cleanup_inactive_servers rs now) now')))
         \<longleftrightarrow> (\<exists>info. map_of (servers rs) s = Some info
                       \<and> now - last_heartbeat info \<le> HEARTBEAT_TIMEOUT))"
proof -
  let ?stale = "\<lambda>(name, info). now - last_heartbeat info > HEARTBEAT_TIMEOUT"
  let ?inactive = "map fst (filter ?stale (servers rs))"
  have in_inactive: "k \<in> set ?inactive
      \<longleftrightarrow> (\<exists>i. map_of (servers rs) k = Some i \<and> now - last_heartbeat i > HEARTBEAT_TIMEOUT)"
    for k
    using assms by (auto simp: image_iff)
  have "s \<in> set (listed_names (fst (handle_list_request (cleanup_inactive_servers rs now) now')))
      \<longleftrightarrow> s \<in> fst ` set (filter (\<lambda>(k, v). k \<notin> set ?inactive) (servers rs))"
    by (simp add: listed_names_list_request cleanup_state fold_delete_filter)
  also have "\<dots> \<longleftrightarrow> (\<exists>info. (s, info) \<in> set (servers rs) \<and> s \<notin> set ?inactive)"
    by (auto simp: image_iff)
  also have "\<dots> \<longleftrightarrow> (\<exists>info. map_of (servers rs) s = Some info
                            \<and> now - last_heartbeat info \<le> HEARTBEAT_TIMEOUT)"
    using assms in_inactive by (auto simp: not_less dest: eq_key_imp_eq_value)
  finally show ?thesis by (simp add: listed_names_list_request)
qed

lemma stale_registry_servers:
  "servers stale_registry = [(''s1'', \<lparr>rank = 1, last_heartbeat = 0\<rparr>)]"
  by (simp add: stale_registry_def rank_req_def process_request_def handle_rank_request_def
      init_reference_server_def get_or_def Let_def case_prod_unfold save_state_def
      cleanup_inactive_servers_def HEARTBEAT_TIMEOUT_def update_clock_def)

theorem list_after_cleanup_witness:
  "distinct (map fst (servers stale_registry))
   \<and> ''s1'' \<notin> set (listed_names
                    (fst (handle_list_request (cleanup_inactive_servers stale_registry 39) 40)))
   \<and> ''s1'' \<in> set (listed_names
                    (fst (handle_list_request (cleanup_inactive_servers stale_registry 29) 40)))"
  using list_after_cleanup [of stale_registry 40 "''s1''" 39]
    list_after_cleanup [of stale_registry 40 "''s1''" 29]
  by (simp add: stale_registry_servers HEARTBEAT_TIMEOUT_def)

text \<open>
  C4, as stated, fails between two sweeps: \<open>s1\<close> sent its last heartbeat at time 0, the
  sweep at time 29 kept it, and a \<open>list\<close> request at time 35, more than 30 seconds after
  the heartbeat, still names it.
\<close>

theorem stale_server_listed:
  "map_of (servers stale_registry) ''s1'' = Some \<lparr>rank = 1, last_heartbeat = 0\<rparr>
   \<and> 35 - last_heartbeat \<lparr>rank = 1, last_heartbeat = 0\<rparr> > HEARTBEAT_TIMEOUT
   \<and> ''s1'' \<in> set (listed_names (fst (handle_list_request stale_registry 35)))"
  by (simp add: listed_names_list_request stale_registry_servers HEARTBEAT_TIMEOUT_def)

subsection \<open>Rank allocation\<close>

lemma update_absent: "map_of al u = None \<Longrightarrow> AList.update u v al = al @ [(u, v)]"
  by (induction al) (auto split: if_splits)

lemma key_in_roster: "p \<in> set al \<Longrightarrow> map_of al (fst p) \<noteq> None"
  by (induction al) auto

lemma new_entries_same_keys:
  assumes "set (map fst (servers rs')) \<subseteq> set (map fst (servers rs))"
  shows "new_entries rs rs' = []"
proof -
  have "map_of (servers rs) (fst p) \<noteq> None" if "p \<in> set (servers rs')" for p
  proof -
    from that have "fst p \<in> set (map fst (servers rs'))" by simp
    with assms have "fst p \<in> set (map fst (servers rs))" by blast
    then show ?thesis by (simp add: map_of_eq_None_iff)
  qed
  then have "filter (\<lambda>(n, i). map_of (servers rs) n = None) (servers rs') = []"
    by (simp add: filter_empty_conv case_prod_unfold)
  then show ?thesis
    by (simp add: new_entries_def)
qed

lemma new_entries_register:
  assumes "map_of (servers rs) u = None"
    and "servers rs' = AList.update u \<lparr>rank = r, last_heartbeat = t\<rparr> (servers rs)"
  shows "new_entries rs rs' = [(u, r)]"
proof -
  have "filter (\<lambda>(n, i). map_of (servers rs) n = None) (servers rs) = []"
    using key_in_roster [of _ "servers rs"] by (simp add: filter_empty_conv case_prod_unfold)
  then show ?thesis
    using assms by (simp add: new_entries_def update_absent)
qed

lemma step_cases:
  obtains (same) "servers (step rs e) = servers rs" "next_rank (step rs e) = next_rank rs"
  | (refresh) u info t where "map_of (servers rs) u = Some info"
      "servers (step rs e) = AList.update u (info\<lparr>last_heartbeat := t\<rparr>) (servers rs)"
      "next_rank (step rs e) = next_rank rs"
  | (register) u t where "map_of (servers rs) u = None"
      "servers (step rs e) = AList.update u \<lparr>rank = next_rank rs, last_heartbeat = t\<rparr> (servers rs)"
      "next_rank (step rs e) = next_rank rs + 1"
  | (evict) ks where "servers (step rs e) = filter (\<lambda>(k, v). k \<notin> set ks) (servers rs)"
      "next_rank (step rs e) = next_rank rs"
proof (cases e)
  case (Cleanup t)
  then show ?thesis
    using evict [of "map fst (filter (\<lambda>(name, info). t - last_heartbeat info > HEARTBEAT_TIMEOUT) (servers rs))"]
    by (simp add: cleanup_state fold_delete_filter)
next
  case (Request req t)
  let ?rs0 = "rs\<lparr>rs_clock := snd (update_clock (rs_clock rs) (get_or (req_clock req) 0))\<rparr>"
  let ?u = "get_or (req_user req) ''''"
  have rs0: "servers ?rs0 = servers rs" "next_rank ?rs0 = next_rank rs" by simp_all
  consider (rank) "req_service req = ''rank''" | (list) "req_service req = ''list''"
    | (hb) "req_service req = ''heartbeat''"
    | (other) "req_service req \<noteq> ''rank''" "req_service req \<noteq> ''list''" "req_service req \<noteq> ''heartbeat''"
    by blast
  then show ?thesis
  proof cases
    case rank
    then have st: "step rs e = snd (handle_rank_request ?rs0 (req_user req) t)"
      using Request by (simp add: process_request_def Let_def)
    show ?thesis
    proof (cases "?u = ''''")
      case True
      then show ?thesis using same st rs0
        by (simp add: servers_handle_rank_request next_rank_handle_rank_request)
    next
      case False
      show ?thesis
      proof (cases "map_of (servers rs) ?u")
        case None
        then show ?thesis using register [of ?u t] st False
          by (simp add: servers_handle_rank_request next_rank_handle_rank_request)
      next
        case (Some info)
        then show ?thesis using refresh [of ?u info t] st False
          by (simp add: servers_handle_rank_request next_rank_handle_rank_request)
      qed
    qed
  next
    case list
    then have st: "step rs e = snd (handle_list_request ?rs0 t)"
      using Request by (simp add: process_request_def Let_def)
    then show ?thesis using same by (simp add: handle_list_request_state)
  next
    case hb
    then have st: "step rs e = snd (handle_heartbeat ?rs0 (req_user req) t)"
      using Request by (simp add: process_request_def Let_def)
    show ?thesis
    proof (cases "?u = ''''")
      case True
      then show ?thesis using same st rs0
        by (simp add: servers_handle_heartbeat next_rank_handle_heartbeat)
    next
      case False
      show ?thesis
      proof (cases "map_of (servers rs) ?u")
        case None
        then show ?thesis using register [of ?u t] st False
          by (simp add: servers_handle_heartbeat next_rank_handle_heartbeat)
      next
        case (Some info)
        then show ?thesis using refresh [of ?u info t] st False
          by (simp add: servers_handle_heartbeat next_rank_handle_heartbeat)
      qed
    qed
  next
    case other
    then show ?thesis using same Request
      by (simp add: process_request_def Let_def case_prod_unfold)
  qed
qed

text \<open>An event hands out no rank, or hands out \<open>next_rank\<close> and moves it on by one.\<close>

lemma step_new_entries:
  "(new_entries rs (step rs e) = [] \<and> next_rank (step rs e) = next_rank rs)
   \<or> (\<exists>u. new_entries rs (step rs e) = [(u, next_rank rs)]
          \<and> next_rank (step rs e) = next_rank rs + 1)"
proof (cases rule: step_cases [of rs e])
  case same
  then show ?thesis by (simp add: new_entries_same_keys)
next
  case (refresh u info t)
  from refresh(1) have "u \<in> set (map fst (servers rs))"
    by (force dest: map_of_SomeD)
  with refresh have "map fst (servers (step rs e)) = map fst (servers rs)"
    by (simp add: update_keys)
  then show ?thesis using refresh by (simp add: new_entries_same_keys)
next
  case (register u t)
  then show ?thesis using new_entries_register by blast
next
  case (evict ks)
  then show ?thesis by (auto intro!: new_entries_same_keys)
qed

text \<open>A name on the roster after an event was there before with the same rank, or is new.\<close>

lemma step_roster:
  assumes "map_of (servers (step rs e)) n = Some i"
  shows "(\<exists>j. map_of (servers rs) n = Some j \<and> rank j = rank i)
         \<or> (n, rank i) \<in> set (new_entries rs (step rs e))"
proof (cases "map_of (servers rs) n")
  case None
  from assms have "(n, i) \<in> set (servers (step rs e))" by (rule map_of_SomeD)
  with None show ?thesis by (force simp: new_entries_def)
next
  case (Some j)
  have "rank j = rank i"
  proof (cases rule: step_cases [of rs e])
    case same
    with assms Some show ?thesis by simp
  next
    case (refresh u info t)
    with assms Some show ?thesis by (auto simp: update_conv' split: if_splits)
  next
    case (register u t)
    with assms Some show ?thesis by (auto simp: update_conv' split: if_splits)
  next
    case (evict ks)
    have "map_of (filter (\<lambda>(k, v). k \<notin> set ks) al) n
            = (if n \<in> set ks then None else map_of al n)" for al :: "(string \<times> server_info) list"
      by (induction al) auto
    with assms Some evict show ?thesis by (auto split: if_splits)
  qed
  with Some show ?thesis by simp
qed

lemma upto_shift: "(i::int) # [i + 1 .. i + 1 + int n - 1] = [i .. i + int (Suc n) - 1]"
  by (simp add: upto_rec1 [of i] algebra_simps)

lemma allocations_ranks:
  "map snd (allocations rs es) = [next_rank rs .. next_rank rs + int (length (allocations rs es)) - 1]"
proof (induction es arbitrary: rs)
  case Nil
  then show ?case by simp
next
  case (Cons e es)
  let ?rs' = "step rs e"
  let ?n = "length (allocations ?rs' es)"
  have IH: "map snd (allocations ?rs' es) = [next_rank ?rs' .. next_rank ?rs' + int ?n - 1]"
    by (rule Cons.IH)
  from step_new_entries [of rs e] show ?case
  proof (elim disjE conjE exE)
    assume a: "new_entries rs ?rs' = []" "next_rank ?rs' = next_rank rs"
    have "map snd (allocations rs (e # es)) = map snd (allocations ?rs' es)"
      using a by simp
    moreover have "length (allocations rs (e # es)) = ?n" using a by simp
    ultimately show ?thesis using IH a(2) by presburger
  next
    fix u
    assume a: "new_entries rs ?rs' = [(u, next_rank rs)]" "next_rank ?rs' = next_rank rs + 1"
    have "map snd (allocations rs (e # es)) = next_rank rs # map snd (allocations ?rs' es)"
      using a by simp
    also have "\<dots> = next_rank rs # [next_rank rs + 1 .. next_rank rs + 1 + int ?n - 1]"
      using IH a(2) by presburger
    also have "\<dots> = [next_rank rs .. next_rank rs + int (Suc ?n) - 1]"
      by (rule upto_shift)
    finally show ?thesis using a by simp
  qed
qed

lemma final_roster:
  "map_of (servers (foldl step rs es)) n = Some i \<Longrightarrow>
   (\<exists>j. map_of (servers rs) n = Some j \<and> rank j = rank i) \<or> (n, rank i) \<in> set (allocations rs es)"
proof (induction es arbitrary: rs)
  case Nil
  then show ?case by simp
next
  case (Cons e es)
  from Cons.prems have "map_of (servers (foldl step (step rs e) es)) n = Some i" by simp
  from Cons.IH [OF this] show ?case
  proof
    assume "\<exists>j. map_of (servers (step rs e)) n = Some j \<and> rank j = rank i"
    then obtain j where j: "map_of (servers (step rs e)) n = Some j" "rank j = rank i" by blast
    from step_roster [OF j(1)] j(2) show ?thesis by auto
  next
    assume "(n, rank i) \<in> set (allocations (step rs e) es)"
    then show ?thesis by simp
  qed
qed

lemma create_response_rank:
  "returned_rank (fst (create_response svc st [(''rank'', PyInt r)] clk None now)) = Some r"
  by (simp add: returned_rank_def create_response_def increment_def dict_update_def Let_def update_conv')

lemma create_response_no_rank:
  "returned_rank (fst (create_response svc st [] clk d now)) = None"
  by (auto simp: returned_rank_def create_response_def increment_def dict_update_def Let_def update_conv' split: option.splits)

lemma create_response_list_no_rank:
  "returned_rank (fst (create_response svc st [(''list'', v)] clk None now)) = None"
  by (simp add: returned_rank_def create_response_def increment_def dict_update_def Let_def update_conv')

lemma returned_rank_handle_rank_request:
  "returned_rank (fst (handle_rank_request rs du now)) =
     (if get_or du '''' = '''' then None
      else case map_of (servers rs) (get_or du '''') of
             Some info \<Rightarrow> Some (rank info)
           | None \<Rightarrow> Some (next_rank rs))"
  by (simp add: handle_rank_request_def Let_def case_prod_unfold create_response_rank
      create_response_no_rank split: option.splits)

lemma returned_rank_handle_heartbeat:
  "returned_rank (fst (handle_heartbeat rs du now)) = None"
  by (simp add: handle_heartbeat_def Let_def case_prod_unfold create_response_no_rank)

lemma returned_rank_handle_list_request:
  "returned_rank (fst (handle_list_request rs now)) = None"
  by (simp add: handle_list_request_def Let_def case_prod_unfold create_response_list_no_rank)

text \<open>A rank in a response is the rank the roster holds for the requester afterwards.\<close>

lemma rank_response_in_roster:
  assumes "returned_rank (fst (process_request rs req now)) = Some r"
  shows "\<exists>j. map_of (servers (snd (process_request rs req now))) (get_or (req_user req) '''') = Some j
             \<and> rank j = r"
proof -
  let ?rs0 = "rs\<lparr>rs_clock := snd (update_clock (rs_clock rs) (get_or (req_clock req) 0))\<rparr>"
  let ?u = "get_or (req_user req) ''''"
  have svc: "req_service req = ''rank''"
  proof (rule ccontr)
    assume "req_service req \<noteq> ''rank''"
    then have "returned_rank (fst (process_request rs req now)) = None"
      by (simp add: process_request_def Let_def case_prod_unfold returned_rank_handle_heartbeat
          returned_rank_handle_list_request create_response_no_rank)
    with assms show False by simp
  qed
  then have pr: "process_request rs req now = handle_rank_request ?rs0 (req_user req) now"
    by (simp add: process_request_def Let_def)
  from assms pr have u: "?u \<noteq> ''''"
    by (auto simp: returned_rank_handle_rank_request split: if_splits)
  show ?thesis
  proof (cases "map_of (servers rs) ?u")
    case None
    with assms pr u show ?thesis
      by (simp add: returned_rank_handle_rank_request servers_handle_rank_request update_conv')
  next
    case (Some info)
    with assms pr u show ?thesis
      by (simp add: returned_rank_handle_rank_request servers_handle_rank_request update_conv')
  qed
qed

lemma rank_responses_allocated:
  "(n, r) \<in> set (rank_responses rs es) \<Longrightarrow>
   (\<exists>j. map_of (servers rs) n = Some j \<and> rank j = r) \<or> (n, r) \<in> set (allocations rs es)"
proof (induction es arbitrary: rs)
  case Nil
  then show ?case by simp
next
  case (Cons e es)
  have later: "(\<exists>j. map_of (servers rs) n = Some j \<and> rank j = r) \<or> (n, r) \<in> set (allocations rs (e # es))"
    if "(\<exists>j. map_of (servers (step rs e)) n = Some j \<and> rank j = r) \<or> (n, r) \<in> set (allocations (step rs e) es)"
  proof -
    from that show ?thesis
    proof
      assume "\<exists>j. map_of (servers (step rs e)) n = Some j \<and> rank j = r"
      then obtain j where j: "map_of (servers (step rs e)) n = Some j" "rank j = r" by blast
      from step_roster [OF j(1)] j(2) show ?thesis by auto
    next
      assume "(n, r) \<in> set (allocations (step rs e) es)"
      then show ?thesis by simp
    qed
  qed
  show ?case
  proof (cases e)
    case (Cleanup now)
    with Cons.prems have "(n, r) \<in> set (rank_responses (step rs e) es)" by simp
    from Cons.IH [OF this] show ?thesis by (rule later)
  next
    case (Request req now)
    with Cons.prems consider
      (head) "returned_rank (fst (process_request rs req now)) = Some r" "n = get_or (req_user req) ''''"
      | (tail) "(n, r) \<in> set (rank_responses (step rs e) es)"
      by (auto split: option.splits)
    then show ?thesis
    proof cases
      case head
      from rank_response_in_roster [OF head(1)] head(2) Request
      have "\<exists>j. map_of (servers (step rs e)) n = Some j \<and> rank j = r" by simp
      then show ?thesis using later by blast
    next
      case tail
      from Cons.IH [OF this] show ?thesis by (rule later)
    qed
  qed
qed

lemma init_state [simp]:
  "servers init_reference_server = []" "next_rank init_reference_server = 1"
  by (simp_all add: init_reference_server_def)

text \<open>
  C5. In every execution of a registry started with an empty roster, whatever requests and
  sweeps it processes: the ranks handed out are 1, 2, 3, ... in this order; every rank a
  \<open>rank\<close> response carries, and every rank on the roster, was handed out to that name; and
  no rank is handed out to two different names.
\<close>

theorem rank_uniqueness:
  "map snd (allocations init_reference_server es)
     = [1 .. int (length (allocations init_reference_server es))]
   \<and> set (rank_responses init_reference_server es) \<subseteq> set (allocations init_reference_server es)
   \<and> (\<forall>n i. map_of (servers (foldl step init_reference_server es)) n = Some i
         \<longrightarrow> (n, rank i) \<in> set (allocations init_reference_server es))
   \<and> (\<forall>n1 n2 r. (n1, r) \<in> set (allocations init_reference_server es)
          \<and> (n2, r) \<in> set (allocations init_reference_server es) \<longrightarrow> n1 = n2)"
proof (intro conjI allI impI)
  let ?A = "allocations init_reference_server es"
  show ranks: "map snd ?A = [1 .. int (length ?A)]"
    using allocations_ranks [of init_reference_server es] by simp
  show "set (rank_responses init_reference_server es) \<subseteq> set ?A"
    using rank_responses_allocated [of _ _ init_reference_server es] by auto
  show "(n, rank i) \<in> set ?A"
    if "map_of (servers (foldl step init_reference_server es)) n = Some i" for n i
    using final_roster [OF that] by simp
  show "n1 = n2" if "(n1, r) \<in> set ?A \<and> (n2, r) \<in> set ?A" for n1 n2 r
  proof -
    have "distinct (map snd ?A)" by (simp add: ranks)
    then have "inj_on snd (set ?A)" by (simp add: distinct_map)
    from inj_onD [OF this, of "(n1, r)" "(n2, r)"] that show ?thesis by simp
  qed
qed

lemma servers_process_request:
  "servers (snd (process_request rs req now)) =
     (if req_service req = ''rank'' \<or> req_service req = ''heartbeat'' then
        (if get_or (req_user req) '''' = '''' then servers rs
         else case map_of (servers rs) (get_or (req_user req) '''') of
           Some info \<Rightarrow> AList.update (get_or (req_user req) '''') (info\<lparr>last_heartbeat := now\<rparr>) (servers rs)
         | None \<Rightarrow> AList.update (get_or (req_user req) '''') \<lparr>rank = next_rank rs, last_heartbeat = now\<rparr> (servers rs))
      else servers rs)"
  by (simp add: process_request_def Let_def case_prod_unfold servers_handle_rank_request
      servers_handle_heartbeat handle_list_request_state split: option.splits)

lemma next_rank_process_request:
  "next_rank (snd (process_request rs req now)) =
     (if (req_service req = ''rank'' \<or> req_service req = ''heartbeat'')
         \<and> get_or (req_user req) '''' \<noteq> '''' \<and> map_of (servers rs) (get_or (req_user req) '''') = None
      then next_rank rs + 1 else next_rank rs)"
  by (simp add: process_request_def Let_def case_prod_unfold next_rank_handle_rank_request
      next_rank_handle_heartbeat handle_list_request_state split: option.splits)

lemma example_run_allocations:
  "allocations init_reference_server example_run = [(''s1'', 1), (''s2'', 2), (''s1'', 3)]"
  by (simp add: example_run_def rank_req_def heartbeat_req_def servers_process_request
      next_rank_process_request cleanup_state get_or_def new_entries_def HEARTBEAT_TIMEOUT_def)

theorem rank_uniqueness_witness:
  "map snd (allocations init_reference_server example_run) = [1, 2, 3]
   \<and> set (rank_responses init_reference_server example_run)
       \<subseteq> {(''s1'', 1), (''s2'', 2), (''s1'', 3)}"
  using rank_uniqueness [of example_run] by (simp add: example_run_allocations)

end
